theory Spec2Isabelle
  imports Main
begin

section \<open>Durations and the constants of the watcher\<close>

text \<open>
  A \<open>time.Duration\<close> counts nanoseconds. Every duration of this program is a small
  positive constant, so durations and instants are natural numbers of nanoseconds.
\<close>

type_synonym duration = nat
type_synonym instant = nat

definition Millisecond :: duration where
  "Millisecond = 1000000"

definition Second :: duration where
  "Second = 1000 * Millisecond"

definition Minute :: duration where
  "Minute = 60 * Second"

definition informerSyncRetryCount :: nat where
  "informerSyncRetryCount = 5"

definition informerSyncTimeout :: duration where
  "informerSyncTimeout = 2 * Second"

definition informerSyncRetryInitialBackoff :: duration where
  "informerSyncRetryInitialBackoff = 500 * Millisecond"

section \<open>The watcher: LazyDemandInformer\<close>

text \<open>
  A channel of \<open>struct{}\<close> on which nothing is ever sent is either open or closed.
\<close>

datatype chan = Open | Closed

text \<open>
  The shared informer factory, as far as the watcher uses it:
  \<open>Scaler().V1alpha1().Demands()\<close> gives the demand informer interface.
\<close>

record 'inf SharedInformerFactory =
  Demands :: 'inf

text \<open>
  The struct \<open>LazyDemandInformer\<close>. The field \<open>lock\<close> is left out: the model is
  sequential, every method runs from its \<open>Lock\<close> to its \<open>Unlock\<close> in one step.
\<close>

record ('inf, 'api, 'dc) LazyDemandInformer =
  informerFactory :: "'inf SharedInformerFactory"
  apiExtensionsClient :: 'api
  demandKubeClient :: 'dc
  ready :: chan
  informer :: "'inf option"

definition NewLazyDemandInformer ::
  "'inf SharedInformerFactory \<Rightarrow> 'api \<Rightarrow> 'dc \<Rightarrow> ('inf, 'api, 'dc) LazyDemandInformer" where
  "NewLazyDemandInformer f a d =
     \<lparr>informerFactory = f, apiExtensionsClient = a, demandKubeClient = d,
      ready = Open, informer = None\<rparr>"

definition Informer :: "('inf, 'api, 'dc) LazyDemandInformer \<Rightarrow> 'inf option" where
  "Informer ldi = informer ldi"

definition Ready :: "('inf, 'api, 'dc) LazyDemandInformer \<Rightarrow> chan" where
  "Ready ldi = ready ldi"

subsection \<open>Errors and observable actions\<close>

datatype error =
    DiscoveryError string
  | TimeoutSyncing duration

text \<open>
  What the watcher does to the outside world, in program order: the calls to its
  collaborators, its log lines and its channel operations.
\<close>

datatype action =
    NewTicker duration
  | TickerStop
  | RecvDone
  | RecvTick
  | CheckCRDExists
  | LogInfo string
  | LogError string
  | FactoryStart
  | WaitForCacheSync duration
  | Backoff duration nat
  | CloseReady

subsection \<open>The environment of one check\<close>

text \<open>
  What the cluster answers during one call of \<open>checkDemandCRDExists\<close>:
  \<^item> \<open>crd_ready\<close> and \<open>crd_err\<close>: the second and third result of \<open>CheckCRDExists\<close>;
  \<^item> \<open>synced k\<close>: the result of \<open>WaitForCacheSync\<close> in attempt \<open>k\<close> (counted from 0);
  \<^item> \<open>ctx_done_in_wait k\<close>: whether \<open>ctx.Done()\<close> ends the retrier's wait that
    follows the failed attempt \<open>k\<close>.
\<close>

record check_env =
  crd_ready :: bool
  crd_err :: "string option"
  synced :: "nat \<Rightarrow> bool"
  ctx_done_in_wait :: "nat \<Rightarrow> bool"

subsection \<open>The retry library\<close>

text \<open>
  \<open>retry.Do(ctx, action, WithMaxAttempts(n), WithInitialBackoff(d))\<close> of
  \<open>github.com/palantir/pkg/retry\<close>: the first attempt runs at once; after a failed
  attempt the retrier gives up when \<open>n\<close> attempts were made, otherwise it waits for its
  next backoff or for \<open>ctx.Done()\<close>, whichever comes first, and gives up in the
  second case. \<open>Do\<close> returns nil at the first attempt that succeeds and the error of the
  last attempt when the retrier gives up. The wait after attempt \<open>k\<close> is recorded as
  \<open>Backoff d k\<close>: the \<open>k\<close>-th wait of an exponential schedule whose initial backoff
  is \<open>d\<close> (the library's multiplier, cap and jitter are its own). The library's
  unbounded mode (\<open>n = 0\<close>) is not used by this program and is not modelled.
\<close>

record retry_options =
  maxAttempts :: nat
  initialBackoff :: duration

function retry_loop ::
  "retry_options \<Rightarrow> (nat \<Rightarrow> bool) \<Rightarrow> (nat \<Rightarrow> error option \<times> action list) \<Rightarrow>
   nat \<Rightarrow> action list \<Rightarrow> error option \<times> action list" where
  "retry_loop opts ctx_done act k tr =
     (case act k of
        (None, t) \<Rightarrow> (None, tr @ t)
      | (Some e, t) \<Rightarrow>
          if maxAttempts opts \<le> Suc k then (Some e, tr @ t)
          else if ctx_done k then (Some e, tr @ t)
          else retry_loop opts ctx_done act (Suc k)
                 (tr @ t @ [Backoff (initialBackoff opts) k]))"
  by pat_completeness auto
termination
  by (relation "measure (\<lambda>(opts, ctx_done, act, k, tr). maxAttempts opts - k)") auto

declare retry_loop.simps [simp del]

definition retry_Do ::
  "retry_options \<Rightarrow> (nat \<Rightarrow> bool) \<Rightarrow> (nat \<Rightarrow> error option \<times> action list) \<Rightarrow>
   error option \<times> action list" where
  "retry_Do opts ctx_done act = retry_loop opts ctx_done act 0 []"

subsection \<open>initializeInformer and checkDemandCRDExists\<close>

definition syncAttempt :: "check_env \<Rightarrow> nat \<Rightarrow> error option \<times> action list" where
  "syncAttempt env k =
     (if \<not> synced env k
      then (Some (TimeoutSyncing informerSyncTimeout), [WaitForCacheSync informerSyncTimeout])
      else (None, [WaitForCacheSync informerSyncTimeout]))"

definition initializeInformer ::
  "check_env \<Rightarrow> ('inf, 'api, 'dc) LazyDemandInformer \<Rightarrow>
   error option \<times> ('inf, 'api, 'dc) LazyDemandInformer \<times> action list" where
  "initializeInformer env ldi =
     (let informerInterface = Demands (informerFactory ldi);
          (err, tr) = retry_Do
             \<lparr>maxAttempts = informerSyncRetryCount,
              initialBackoff = informerSyncRetryInitialBackoff\<rparr>
             (ctx_done_in_wait env) (syncAttempt env)
      in if err \<noteq> None then (err, ldi, FactoryStart # tr)
         else (None, ldi\<lparr>informer := Some informerInterface\<rparr>, FactoryStart # tr))"

definition checkDemandCRDExists ::
  "check_env \<Rightarrow> ('inf, 'api, 'dc) LazyDemandInformer \<Rightarrow>
   bool \<times> ('inf, 'api, 'dc) LazyDemandInformer \<times> action list" where
  "checkDemandCRDExists env ldi =
     (if crd_err env \<noteq> None
      then (False, ldi,
            [CheckCRDExists, LogInfo ''failed to determine if demand CRD exists''])
      else if crd_ready env
      then (case initializeInformer env ldi of
              (Some e, ldi', tr) \<Rightarrow>
                (False, ldi',
                 [CheckCRDExists,
                  LogInfo ''demand CRD has been initialized. Demand resources can now be created'']
                 @ tr @ [LogError ''failed initializing demand informer''])
            | (None, ldi', tr) \<Rightarrow>
                (crd_ready env, ldi',
                 [CheckCRDExists,
                  LogInfo ''demand CRD has been initialized. Demand resources can now be created'']
                 @ tr))
      else (crd_ready env, ldi, [CheckCRDExists]))"

text \<open>
  The watcher after a series of calls of \<open>initializeInformer\<close>, one for each
  environment of the list, in order.
\<close>

fun initializeInformer_calls ::
  "check_env list \<Rightarrow> ('inf, 'api, 'dc) LazyDemandInformer \<Rightarrow> ('inf, 'api, 'dc) LazyDemandInformer" where
  "initializeInformer_calls [] ldi = ldi"
| "initializeInformer_calls (env # envs) ldi =
     initializeInformer_calls envs (fst (snd (initializeInformer env ldi)))"

section \<open>Run: the polling loop\<close>

subsection \<open>The ticker and the context\<close>

text \<open>
  \<open>time.NewTicker(d)\<close>, created at instant \<open>now\<close>: the runtime fires at \<open>now + d\<close>,
  \<open>now + 2 * d\<close>, ... and each firing puts a tick into the channel \<open>t.C\<close>, which holds
  one tick; a firing that finds the channel full is dropped. \<open>next_fire\<close> is the next
  firing that has not happened yet, \<open>buffered\<close> says whether \<open>t.C\<close> holds a tick.
\<close>

record Ticker =
  period :: duration
  next_fire :: instant
  buffered :: bool

definition NewTicker_at :: "duration \<Rightarrow> instant \<Rightarrow> Ticker" where
  "NewTicker_at d now = \<lparr>period = d, next_fire = now + d, buffered = False\<rparr>"

text \<open>The ticker once the clock has reached \<open>now\<close>: every firing up to \<open>now\<close> has happened.\<close>

definition ticker_advance :: "Ticker \<Rightarrow> instant \<Rightarrow> Ticker" where
  "ticker_advance tk now =
     (if next_fire tk \<le> now
      then tk\<lparr>next_fire := next_fire tk + ((now - next_fire tk) div period tk + 1) * period tk,
              buffered := True\<rparr>
      else tk)"

text \<open>
  The context of \<open>Run\<close>: \<open>cancel_at\<close> is the instant at which it is cancelled, if ever.
  When both cases of the \<open>select\<close> are ready Go picks one at random:
  \<open>done_first t\<close> says whether \<open>ctx.Done()\<close> is the one picked at instant \<open>t\<close>.
\<close>

record run_env =
  cancel_at :: "instant option"
  done_first :: "instant \<Rightarrow> bool"

definition ctx_Done :: "run_env \<Rightarrow> instant \<Rightarrow> bool" where
  "ctx_Done w now = (case cancel_at w of None \<Rightarrow> False | Some c \<Rightarrow> c \<le> now)"

datatype select_case = CaseDone | CaseTick

text \<open>
  The \<open>select\<close> of \<open>Run\<close>, entered at instant \<open>now\<close>: it blocks until a case is ready
  (the instant \<open>wake\<close>) and gives the case taken, the instant, and the ticker after it.
\<close>

definition select_Run :: "run_env \<Rightarrow> Ticker \<Rightarrow> instant \<Rightarrow> select_case \<times> instant \<times> Ticker" where
  "select_Run w tk now =
     (let tk0 = ticker_advance tk now;
          wake = (if ctx_Done w now \<or> buffered tk0 then now
                  else (case cancel_at w of
                          None \<Rightarrow> next_fire tk0
                        | Some c \<Rightarrow> min c (next_fire tk0)));
          tk1 = ticker_advance tk0 wake
      in if ctx_Done w wake \<and> (if buffered tk1 then done_first w wake else True)
         then (CaseDone, wake, tk1)
         else (CaseTick, wake, tk1\<lparr>buffered := False\<rparr>))"

subsection \<open>The loop\<close>

text \<open>
  \<open>Run\<close> may never return, so a run is observed along the checks the cluster answers:
  one \<open>tick_env\<close> for each call of \<open>checkDemandCRDExists\<close>, with the time the call
  takes. When the answers are used up and the loop would start another check, the
  outcome is \<open>Running\<close>. A returned run carries the error value \<open>Run\<close> returns.
  The trace stamps every action with an instant; the actions of a check carry the
  instant at which its tick was received.
\<close>

datatype 'a outcome = Returned 'a | Running

record tick_env =
  chk :: check_env
  elapsed :: duration

record ('inf, 'api, 'dc) run_result =
  outcome :: "error option outcome"
  watcher :: "('inf, 'api, 'dc) LazyDemandInformer"
  trace :: "(instant \<times> action) list"
  clock :: instant

fun Run_loop ::
  "run_env \<Rightarrow> tick_env list \<Rightarrow> Ticker \<Rightarrow> instant \<Rightarrow> ('inf, 'api, 'dc) LazyDemandInformer \<Rightarrow>
   (instant \<times> action) list \<Rightarrow> ('inf, 'api, 'dc) run_result" where
  "Run_loop w [] tk now ldi tr =
     (case select_Run w tk now of
        (CaseDone, t, tk') \<Rightarrow>
          \<lparr>outcome = Returned None, watcher = ldi,
           trace = tr @ [(t, RecvDone), (t, TickerStop)], clock = t\<rparr>
      | (CaseTick, t, tk') \<Rightarrow>
          \<lparr>outcome = Running, watcher = ldi, trace = tr, clock = now\<rparr>)"
| "Run_loop w (e # es) tk now ldi tr =
     (case select_Run w tk now of
        (CaseDone, t, tk') \<Rightarrow>
          \<lparr>outcome = Returned None, watcher = ldi,
           trace = tr @ [(t, RecvDone), (t, TickerStop)], clock = t\<rparr>
      | (CaseTick, t, tk') \<Rightarrow>
          (case checkDemandCRDExists (chk e) ldi of
             (ok, ldi', acts) \<Rightarrow>
               if ok
               then \<lparr>outcome = Returned None, watcher = ldi',
                     trace = tr @ (t, RecvTick) # map (Pair t) acts
                             @ [(t + elapsed e, TickerStop)],
                     clock = t + elapsed e\<rparr>
               else Run_loop w es tk' (t + elapsed e) ldi'
                      (tr @ (t, RecvTick) # map (Pair t) acts)))"

definition Run ::
  "run_env \<Rightarrow> tick_env list \<Rightarrow> instant \<Rightarrow> ('inf, 'api, 'dc) LazyDemandInformer \<Rightarrow>
   ('inf, 'api, 'dc) run_result" where
  "Run w envs start ldi =
     Run_loop w envs (NewTicker_at Minute start) start ldi [(start, NewTicker Minute)]"

section \<open>The reclaimer: DemandGC\<close>

subsection \<open>Pods and pod events\<close>

text \<open>
  A pod, as far as the reclaimer looks at it: its identity (\<open>Namespace\<close>, \<open>Name\<close>), what
  the managed-pod filter may inspect (\<open>Labels\<close>, \<open>SchedulerName\<close>) and its node assignment
  (\<open>NodeName\<close>, empty while the pod is not scheduled).
\<close>

record Pod =
  Namespace :: string
  Name :: string
  Labels :: "(string \<times> string) list"
  SchedulerName :: string
  NodeName :: string



subsection \<open>The event handlers of client-go\<close>










subsection \<open>StartDemandGC\<close>



record ('ctx, 'cache) DemandGC =
  demandCache :: 'cache
  ctx :: 'ctx


section \<open>Example inputs\<close>

text \<open>
  Concrete contexts, cluster answers and a fresh watcher, at which the theorems below
  are instantiated: a context that is never cancelled and one cancelled at an instant;
  a resource type that is absent, a discovery query that fails, a cache that
  synchronizes from attempt \<open>n\<close> on, one that never does, and one that never does while
  the context is cancelled during the first wait.
\<close>

definition live :: run_env where
  "live = \<lparr>cancel_at = None, done_first = (\<lambda>t. False)\<rparr>"

definition cancelled :: "instant \<Rightarrow> run_env" where
  "cancelled c = \<lparr>cancel_at = Some c, done_first = (\<lambda>t. True)\<rparr>"

definition crd_absent :: check_env where
  "crd_absent = \<lparr>crd_ready = False, crd_err = None, synced = (\<lambda>k. False),
                 ctx_done_in_wait = (\<lambda>k. False)\<rparr>"

definition crd_error :: check_env where
  "crd_error = \<lparr>crd_ready = False, crd_err = Some ''connection refused'',
                synced = (\<lambda>k. False), ctx_done_in_wait = (\<lambda>k. False)\<rparr>"

definition sync_from :: "nat \<Rightarrow> check_env" where
  "sync_from n = \<lparr>crd_ready = True, crd_err = None, synced = (\<lambda>k. n \<le> k),
                  ctx_done_in_wait = (\<lambda>k. False)\<rparr>"

definition sync_never :: check_env where
  "sync_never = \<lparr>crd_ready = True, crd_err = None, synced = (\<lambda>k. False),
                 ctx_done_in_wait = (\<lambda>k. False)\<rparr>"

definition sync_never_cancelled :: check_env where
  "sync_never_cancelled = \<lparr>crd_ready = True, crd_err = None, synced = (\<lambda>k. False),
                 ctx_done_in_wait = (\<lambda>k. True)\<rparr>"

definition taking :: "duration \<Rightarrow> check_env \<Rightarrow> tick_env" where
  "taking d c = \<lparr>chk = c, elapsed = d\<rparr>"

definition fresh :: "(string, string, string) LazyDemandInformer" where
  "fresh = NewLazyDemandInformer \<lparr>Demands = ''demands''\<rparr> ''apiextensions'' ''scaler''"

section \<open>Properties of the watcher\<close>

lemmas example_defs = live_def cancelled_def crd_absent_def crd_error_def sync_from_def
  sync_never_def sync_never_cancelled_def taking_def fresh_def NewLazyDemandInformer_def

lemmas const_defs = Millisecond_def Second_def Minute_def informerSyncRetryCount_def
  informerSyncTimeout_def informerSyncRetryInitialBackoff_def

lemmas check_defs = checkDemandCRDExists_def initializeInformer_def retry_Do_def
  retry_loop.simps syncAttempt_def

lemmas run_defs = Run_def NewTicker_at_def select_Run_def ticker_advance_def ctx_Done_def Let_def

subsection \<open>The retry loop and one check\<close>

lemma retry_loop_all_fail:
  "\<forall>k. fst (act k) = Some e \<Longrightarrow> fst (retry_loop opts cd act k tr) = Some e"
proof (induction opts cd act k tr rule: retry_loop.induct)
  case (1 opts cd act k tr)
  obtain r t where a: "act k = (r, t)" by (cases "act k")
  with "1.prems" have r: "r = Some e" by (metis fst_conv)
  show ?case
    using "1.IH"[OF a[unfolded r, symmetric] refl] "1.prems" a r
    by (subst retry_loop.simps) simp
qed

lemma retry_loop_success:
  "fst (retry_loop opts cd act k tr) = None \<Longrightarrow>
   \<exists>j\<ge>k. fst (act j) = None \<and> (j < maxAttempts opts \<or> j = k)"
proof (induction opts cd act k tr rule: retry_loop.induct)
  case (1 opts cd act k tr)
  obtain r t where a: "act k = (r, t)" by (cases "act k")
  show ?case
  proof (cases r)
    case None
    with a show ?thesis by auto
  next
    case (Some e)
    from "1.prems" a Some have c: "\<not> maxAttempts opts \<le> Suc k" "\<not> cd k"
      by (subst (asm) retry_loop.simps, simp split: if_splits)+
    from "1.prems" a Some c
    have r: "fst (retry_loop opts cd act (Suc k) (tr @ t @ [Backoff (initialBackoff opts) k])) = None"
      by (subst (asm) retry_loop.simps) simp
    from "1.IH"[OF a[unfolded Some, symmetric] refl c r]
    obtain j where "j \<ge> Suc k" "fst (act j) = None" "j < maxAttempts opts \<or> j = Suc k"
      by auto
    with c show ?thesis by (intro exI[of _ j]) auto
  qed
qed

lemma initializeInformer_unfold:
  "initializeInformer env ldi =
     (case retry_Do \<lparr>maxAttempts = informerSyncRetryCount,
                     initialBackoff = informerSyncRetryInitialBackoff\<rparr>
             (ctx_done_in_wait env) (syncAttempt env) of
        (None, tr) \<Rightarrow> (None, ldi\<lparr>informer := Some (Demands (informerFactory ldi))\<rparr>, FactoryStart # tr)
      | (Some e, tr) \<Rightarrow> (Some e, ldi, FactoryStart # tr))"
  by (simp add: initializeInformer_def Let_def split: prod.splits option.splits)

lemma initializeInformer_err_indep:
  "fst (initializeInformer env s) = fst (initializeInformer env s')"
  by (simp add: initializeInformer_unfold split: prod.splits option.splits)

lemma initializeInformer_state:
  "fst (snd (initializeInformer env ldi)) =
     (if fst (initializeInformer env ldi) = None
      then ldi\<lparr>informer := Some (Demands (informerFactory ldi))\<rparr> else ldi)"
  by (simp add: initializeInformer_unfold split: prod.splits option.splits)

lemma initializeInformer_all_fail:
  assumes "\<forall>k. \<not> synced env k"
  shows "fst (initializeInformer env ldi) = Some (TimeoutSyncing informerSyncTimeout)"
proof -
  have "\<forall>k. fst (syncAttempt env k) = Some (TimeoutSyncing informerSyncTimeout)"
    using assms by (simp add: syncAttempt_def)
  from retry_loop_all_fail[OF this]
  have "fst (retry_Do \<lparr>maxAttempts = informerSyncRetryCount,
                     initialBackoff = informerSyncRetryInitialBackoff\<rparr>
             (ctx_done_in_wait env) (syncAttempt env)) = Some (TimeoutSyncing informerSyncTimeout)"
    by (simp add: retry_Do_def)
  then show ?thesis
    by (auto simp add: initializeInformer_unfold split: prod.splits option.splits)
qed

lemma initializeInformer_success:
  assumes "fst (initializeInformer env ldi) = None"
  shows "\<exists>k<informerSyncRetryCount. synced env k"
proof -
  from assms have "fst (retry_loop \<lparr>maxAttempts = informerSyncRetryCount,
                     initialBackoff = informerSyncRetryInitialBackoff\<rparr>
             (ctx_done_in_wait env) (syncAttempt env) 0 []) = None"
    by (simp add: initializeInformer_unfold retry_Do_def split: prod.splits option.splits)
  from retry_loop_success[OF this] obtain j where
    "fst (syncAttempt env j) = None" "j < informerSyncRetryCount \<or> j = 0"
    by auto
  then have "synced env j" "j < informerSyncRetryCount"
    by (auto simp: syncAttempt_def informerSyncRetryCount_def split: if_splits)
  then show ?thesis by blast
qed

lemma checkDemandCRDExists_ok:
  "fst (checkDemandCRDExists env ldi) =
     (crd_err env = None \<and> crd_ready env \<and> fst (initializeInformer env ldi) = None)"
  by (auto simp add: checkDemandCRDExists_def split: prod.splits option.splits)

lemma checkDemandCRDExists_state:
  "fst (snd (checkDemandCRDExists env ldi)) =
     (if fst (checkDemandCRDExists env ldi)
      then ldi\<lparr>informer := Some (Demands (informerFactory ldi))\<rparr> else ldi)"
  using initializeInformer_state[of env ldi]
  by (auto simp add: checkDemandCRDExists_def split: prod.splits option.splits)

lemma retry_loop_actions:
  "set (snd (retry_loop opts cd act k tr)) \<subseteq>
     set tr \<union> (\<Union>j. set (snd (act j))) \<union> range (Backoff (initialBackoff opts))"
proof (induction opts cd act k tr rule: retry_loop.induct)
  case (1 opts cd act k tr)
  obtain r t where a: "act k = (r, t)" by (cases "act k")
  then have t: "set t \<subseteq> (\<Union>j. set (snd (act j)))"
    by (metis UN_upper UNIV_I snd_conv)
  show ?case
  proof (cases r)
    case None
    with a t show ?thesis by (subst retry_loop.simps) auto
  next
    case (Some e)
    with a t "1.IH"[OF a[unfolded Some, symmetric] refl] show ?thesis
      by (subst retry_loop.simps) auto
  qed
qed

lemma initializeInformer_actions:
  "set (snd (snd (initializeInformer env ldi))) \<subseteq>
     {FactoryStart, WaitForCacheSync informerSyncTimeout}
     \<union> range (Backoff informerSyncRetryInitialBackoff)"
proof -
  have "(\<Union>j. set (snd (syncAttempt env j))) \<subseteq> {WaitForCacheSync informerSyncTimeout}"
    by (auto simp: syncAttempt_def split: if_splits)
  with retry_loop_actions[of "\<lparr>maxAttempts = informerSyncRetryCount,
                     initialBackoff = informerSyncRetryInitialBackoff\<rparr>"
        "ctx_done_in_wait env" "syncAttempt env" 0 "[]"]
  have "set (snd (retry_Do \<lparr>maxAttempts = informerSyncRetryCount,
                     initialBackoff = informerSyncRetryInitialBackoff\<rparr>
             (ctx_done_in_wait env) (syncAttempt env))) \<subseteq>
        {WaitForCacheSync informerSyncTimeout} \<union> range (Backoff informerSyncRetryInitialBackoff)"
    by (auto simp: retry_Do_def)
  then show ?thesis
    by (auto simp add: initializeInformer_unfold split: prod.splits option.splits)
qed

lemma checkDemandCRDExists_actions:
  "\<exists>rest. snd (snd (checkDemandCRDExists env ldi)) = CheckCRDExists # rest \<and>
     set rest \<subseteq> {FactoryStart, WaitForCacheSync informerSyncTimeout}
       \<union> range (Backoff informerSyncRetryInitialBackoff) \<union> range LogInfo \<union> range LogError"
  using initializeInformer_actions[of env ldi]
  by (auto simp add: checkDemandCRDExists_def split: prod.splits option.splits)

lemma checkDemandCRDExists_count:
  "length (filter (\<lambda>a. a = CheckCRDExists) (snd (snd (checkDemandCRDExists env ldi)))) = 1"
proof -
  from checkDemandCRDExists_actions[of env ldi] obtain rest where
    r: "snd (snd (checkDemandCRDExists env ldi)) = CheckCRDExists # rest"
       "set rest \<subseteq> {FactoryStart, WaitForCacheSync informerSyncTimeout}
       \<union> range (Backoff informerSyncRetryInitialBackoff) \<union> range LogInfo \<union> range LogError"
    by blast
  then have "filter (\<lambda>a. a = CheckCRDExists) rest = []"
    by (auto simp: filter_empty_conv)
  with r show ?thesis by simp
qed

lemma checkDemandCRDExists_quiet:
  "a \<in> set (snd (snd (checkDemandCRDExists env ldi))) \<Longrightarrow>
   a \<noteq> CloseReady \<and> a \<noteq> RecvTick \<and> a \<noteq> RecvDone \<and> a \<noteq> TickerStop"
  using checkDemandCRDExists_actions[of env ldi] by auto

subsection \<open>The select of Run\<close>

lemma select_Run_Done:
  "select_Run w tk now = (CaseDone, t, tk') \<Longrightarrow> ctx_Done w t \<and> now \<le> t"
  by (auto simp add: select_Run_def Let_def ctx_Done_def ticker_advance_def
      split: if_splits option.splits)

lemma select_Run_Tick:
  "select_Run w tk now = (CaseTick, t, tk') \<Longrightarrow> now \<le> t \<and> \<not> buffered tk'"
  by (auto simp add: select_Run_def Let_def ctx_Done_def ticker_advance_def
      split: if_splits option.splits)

lemma select_Run_Tick_lower:
  "select_Run w tk now = (CaseTick, t, tk') \<Longrightarrow> m \<le> next_fire tk \<Longrightarrow>
   (buffered tk \<Longrightarrow> m \<le> now) \<Longrightarrow> m \<le> t \<and> m \<le> next_fire tk'"
  by (auto simp add: select_Run_def Let_def ctx_Done_def ticker_advance_def
      split: if_splits option.splits)

lemma select_Run_Tick_exact:
  "select_Run w tk now = (CaseTick, t, tk') \<Longrightarrow> \<not> buffered tk \<Longrightarrow> now \<le> next_fire tk \<Longrightarrow>
   t = next_fire tk \<and> next_fire tk' = next_fire tk + period tk \<and> period tk' = period tk"
  by (auto simp add: select_Run_def Let_def ctx_Done_def ticker_advance_def
      split: if_splits option.splits)

lemma select_Run_cancelled:
  "cancel_at w = Some c \<Longrightarrow> \<not> buffered tk \<Longrightarrow> now < next_fire tk \<Longrightarrow> c < next_fire tk \<Longrightarrow>
   select_Run w tk now = (CaseDone, max now c, tk)"
  by (auto simp add: select_Run_def Let_def ctx_Done_def ticker_advance_def
      split: if_splits option.splits)

lemma select_Run_never_cancelled:
  "cancel_at w = None \<Longrightarrow> fst (select_Run w tk now) = CaseTick"
  by (auto simp add: select_Run_def Let_def ctx_Done_def ticker_advance_def
      split: if_splits option.splits)

subsection \<open>Invariants of the loop\<close>

lemma Run_loop_outcome:
  "outcome (Run_loop w envs tk now ldi tr) = Running \<or>
   outcome (Run_loop w envs tk now ldi tr) = Returned None"
  by (induction envs arbitrary: tk now ldi tr)
     (auto split: prod.splits select_case.splits)

lemma checkDemandCRDExists_ready:
  "ready (fst (snd (checkDemandCRDExists env ldi))) = ready ldi"
  by (simp add: checkDemandCRDExists_state)

lemma Run_loop_ready:
  "ready (watcher (Run_loop w envs tk now ldi tr)) = ready ldi"
proof (induction envs arbitrary: tk now ldi tr)
  case Nil
  show ?case by (simp split: prod.splits select_case.splits)
next
  case (Cons e es)
  show ?case
    using checkDemandCRDExists_ready[of "chk e" ldi]
    by (auto simp add: Cons.IH split: prod.splits select_case.splits)
qed

lemma Run_loop_no_close:
  "CloseReady \<notin> snd ` set tr \<Longrightarrow>
   CloseReady \<notin> snd ` set (trace (Run_loop w envs tk now ldi tr))"
proof (induction envs arbitrary: tk now ldi tr)
  case Nil
  then show ?case by (auto split: prod.splits select_case.splits)
next
  case (Cons e es)
  obtain c t tk' where s: "select_Run w tk now = (c, t, tk')" by (cases "select_Run w tk now")
  obtain ok ldi' acts where k: "checkDemandCRDExists (chk e) ldi = (ok, ldi', acts)"
    by (cases "checkDemandCRDExists (chk e) ldi")
  have a: "CloseReady \<notin> set acts"
    using checkDemandCRDExists_quiet[of CloseReady "chk e" ldi] k by auto
  then have b: "CloseReady \<notin> snd ` set (tr @ (t, RecvTick) # map (Pair t) acts)"
    using Cons.prems by (auto simp: image_iff)
  show ?case
  proof (cases c)
    case CaseDone
    with s Cons.prems show ?thesis by (auto simp: image_iff)
  next
    case CaseTick
    show ?thesis
    proof (cases ok)
      case True
      with s k CaseTick b show ?thesis by (auto simp: image_iff)
    next
      case False
      with s k CaseTick Cons.IH[OF b] show ?thesis by simp
    qed
  qed
qed


lemma Run_loop_failed_check:
  "select_Run w tk now = (CaseTick, t, tk') \<Longrightarrow> \<not> fst (checkDemandCRDExists (chk e) ldi) \<Longrightarrow>
   Run_loop w (e # es) tk now ldi tr =
     Run_loop w es tk' (t + elapsed e) ldi
       (tr @ (t, RecvTick) # map (Pair t) (snd (snd (checkDemandCRDExists (chk e) ldi))))"
  using checkDemandCRDExists_state[of "chk e" ldi]
  by (auto split: prod.splits)

lemma Run_loop_returned:
  "outcome (Run_loop w envs tk now ldi tr) = Returned r \<Longrightarrow>
   r = None \<and>
   (ctx_Done w (clock (Run_loop w envs tk now ldi tr)) \<or>
    (\<exists>e\<in>set envs. crd_err (chk e) = None \<and> crd_ready (chk e) \<and>
       (\<exists>k<informerSyncRetryCount. synced (chk e) k) \<and>
       informer (watcher (Run_loop w envs tk now ldi tr)) = Some (Demands (informerFactory ldi))))"
proof (induction envs arbitrary: tk now ldi tr)
  case Nil
  obtain c t tk' where s: "select_Run w tk now = (c, t, tk')" by (cases "select_Run w tk now")
  with Nil show ?case
    using select_Run_Done[of w tk now t tk'] by (cases c) auto
next
  case (Cons e es)
  obtain c t tk' where s: "select_Run w tk now = (c, t, tk')" by (cases "select_Run w tk now")
  show ?case
  proof (cases c)
    case CaseDone
    with s Cons.prems show ?thesis
      using select_Run_Done[of w tk now t tk'] by auto
  next
    case CaseTick
    show ?thesis
    proof (cases "fst (checkDemandCRDExists (chk e) ldi)")
      case True
      then have ok: "crd_err (chk e) = None" "crd_ready (chk e)"
         "\<exists>k<informerSyncRetryCount. synced (chk e) k"
        using initializeInformer_success[of "chk e" ldi]
        by (simp_all add: checkDemandCRDExists_ok)
      have st: "fst (snd (checkDemandCRDExists (chk e) ldi)) =
                  ldi\<lparr>informer := Some (Demands (informerFactory ldi))\<rparr>"
        using True by (simp add: checkDemandCRDExists_state)
      from True s CaseTick st Cons.prems ok show ?thesis
        by (auto split: prod.splits)
    next
      case False
      from Run_loop_failed_check[OF s[unfolded CaseTick] False]
      have eq: "Run_loop w (e # es) tk now ldi tr =
                Run_loop w es tk' (t + elapsed e) ldi
                  (tr @ (t, RecvTick) # map (Pair t) (snd (snd (checkDemandCRDExists (chk e) ldi))))" .
      from Cons.IH[OF Cons.prems[unfolded eq]] show ?thesis
        unfolding eq by auto
    qed
  qed
qed

lemma count_stamped:
  "filter ((\<lambda>x. snd x = a) \<circ> Pair t) acts = filter (\<lambda>b. b = a) acts"
  by (simp add: comp_def)

lemma Run_loop_all_failing:
  "cancel_at w = None \<Longrightarrow> \<forall>e\<in>set envs. \<not> fst (checkDemandCRDExists (chk e) ldi) \<Longrightarrow>
   outcome (Run_loop w envs tk now ldi tr) = Running \<and>
   watcher (Run_loop w envs tk now ldi tr) = ldi \<and>
   length (filter (\<lambda>x. snd x = CheckCRDExists) (trace (Run_loop w envs tk now ldi tr))) =
     length (filter (\<lambda>x. snd x = CheckCRDExists) tr) + length envs"
proof (induction envs arbitrary: tk now tr)
  case Nil
  obtain c t tk' where s: "select_Run w tk now = (c, t, tk')" by (cases "select_Run w tk now")
  with Nil select_Run_never_cancelled[of w tk now] show ?case by auto
next
  case (Cons e es)
  obtain c t tk' where s: "select_Run w tk now = (c, t, tk')" by (cases "select_Run w tk now")
  with Cons.prems select_Run_never_cancelled[of w tk now] have c: "c = CaseTick" by auto
  from Cons.prems have f: "\<not> fst (checkDemandCRDExists (chk e) ldi)" by simp
  from Run_loop_failed_check[OF s[unfolded c] f]
  have eq: "Run_loop w (e # es) tk now ldi tr =
            Run_loop w es tk' (t + elapsed e) ldi
              (tr @ (t, RecvTick) # map (Pair t) (snd (snd (checkDemandCRDExists (chk e) ldi))))" .
  from Cons.prems have rest: "\<forall>e\<in>set es. \<not> fst (checkDemandCRDExists (chk e) ldi)" by simp
  show ?case
    unfolding eq
    using Cons.IH[OF Cons.prems(1) rest] checkDemandCRDExists_count[of "chk e" ldi]
    by (simp add: count_stamped)
qed

lemma Run_loop_checks_after:
  "m \<le> next_fire tk \<Longrightarrow> (buffered tk \<Longrightarrow> m \<le> now) \<Longrightarrow>
   \<forall>x\<in>set tr. snd x = CheckCRDExists \<longrightarrow> m \<le> fst x \<Longrightarrow>
   \<forall>x\<in>set (trace (Run_loop w envs tk now ldi tr)). snd x = CheckCRDExists \<longrightarrow> m \<le> fst x"
proof (induction envs arbitrary: tk now ldi tr)
  case Nil
  obtain c t tk' where s: "select_Run w tk now = (c, t, tk')" by (cases "select_Run w tk now")
  with Nil show ?case by (cases c) auto
next
  case (Cons e es)
  obtain c t tk' where s: "select_Run w tk now = (c, t, tk')" by (cases "select_Run w tk now")
  obtain ok ldi' acts where k: "checkDemandCRDExists (chk e) ldi = (ok, ldi', acts)"
    by (cases "checkDemandCRDExists (chk e) ldi")
  show ?case
  proof (cases c)
    case CaseDone
    with s Cons.prems show ?thesis by auto
  next
    case CaseTick
    from select_Run_Tick_lower[OF s[unfolded CaseTick] Cons.prems(1) Cons.prems(2)]
    have m: "m \<le> t" "m \<le> next_fire tk'" by auto
    from select_Run_Tick[OF s[unfolded CaseTick]] have nb: "\<not> buffered tk'" by simp
    have tr': "\<forall>x\<in>set (tr @ (t, RecvTick) # map (Pair t) acts). snd x = CheckCRDExists \<longrightarrow> m \<le> fst x"
      using Cons.prems(3) m by auto
    show ?thesis
    proof (cases ok)
      case True
      with s k CaseTick tr' show ?thesis by auto
    next
      case False
      have "\<forall>x\<in>set (trace (Run_loop w es tk' (t + elapsed e) ldi'
                (tr @ (t, RecvTick) # map (Pair t) acts))). snd x = CheckCRDExists \<longrightarrow> m \<le> fst x"
        using nb by (intro Cons.IH[OF m(2) _ tr']) simp
      with s k CaseTick False show ?thesis by simp
    qed
  qed
qed

lemma Run_loop_trace_extends:
  "\<exists>rest. trace (Run_loop w envs tk now ldi tr) = tr @ rest"
proof (induction envs arbitrary: tk now ldi tr)
  case Nil
  show ?case by (auto split: prod.splits select_case.splits)
next
  case (Cons e es)
  obtain c t tk' where s: "select_Run w tk now = (c, t, tk')" by (cases "select_Run w tk now")
  obtain ok ldi' acts where k: "checkDemandCRDExists (chk e) ldi = (ok, ldi', acts)"
    by (cases "checkDemandCRDExists (chk e) ldi")
  from Cons.IH[of tk' "t + elapsed e" ldi' "tr @ (t, RecvTick) # map (Pair t) acts"]
  obtain rest where "trace (Run_loop w es tk' (t + elapsed e) ldi'
      (tr @ (t, RecvTick) # map (Pair t) acts)) = tr @ ((t, RecvTick) # map (Pair t) acts @ rest)"
    by auto
  with s k show ?case by (cases c; cases ok) auto
qed

lemma Run_loop_cancelled:
  assumes "cancel_at w = Some c" "\<not> buffered tk" "now < next_fire tk" "c < next_fire tk"
  shows "Run_loop w envs tk now ldi tr =
           \<lparr>outcome = Returned None, watcher = ldi,
            trace = tr @ [(max now c, RecvDone), (max now c, TickerStop)], clock = max now c\<rparr>"
  using select_Run_cancelled[OF assms] by (cases envs) auto

lemma no_ticks_in_check:
  "filter ((\<lambda>x. snd x = RecvTick) \<circ> Pair t) (snd (snd (checkDemandCRDExists env ldi))) = []"
  using checkDemandCRDExists_quiet[of _ env ldi] by (auto simp: filter_empty_conv)

lemma Run_loop_tick_instants:
  "\<not> buffered tk \<Longrightarrow> now \<le> next_fire tk \<Longrightarrow> \<forall>e\<in>set envs. elapsed e \<le> period tk \<Longrightarrow>
   \<exists>n\<le>length envs.
     map fst (filter (\<lambda>x. snd x = RecvTick) (trace (Run_loop w envs tk now ldi tr))) =
     map fst (filter (\<lambda>x. snd x = RecvTick) tr) @ map (\<lambda>i. next_fire tk + i * period tk) [0..<n]"
proof (induction envs arbitrary: tk now ldi tr)
  case Nil
  obtain c t tk' where s: "select_Run w tk now = (c, t, tk')" by (cases "select_Run w tk now")
  then show ?case by (cases c) auto
next
  case (Cons e es)
  obtain c t tk' where s: "select_Run w tk now = (c, t, tk')" by (cases "select_Run w tk now")
  obtain ok ldi' acts where k: "checkDemandCRDExists (chk e) ldi = (ok, ldi', acts)"
    by (cases "checkDemandCRDExists (chk e) ldi")
  have q: "filter (\<lambda>x. snd x = RecvTick) (map (Pair t) acts) = []"
    using no_ticks_in_check[of t "chk e" ldi] k by (simp add: filter_map)
  show ?case
  proof (cases c)
    case CaseDone
    with s show ?thesis by (intro exI[of _ 0]) auto
  next
    case CaseTick
    from select_Run_Tick_exact[OF s[unfolded CaseTick] Cons.prems(1) Cons.prems(2)]
    have x: "t = next_fire tk" "next_fire tk' = next_fire tk + period tk" "period tk' = period tk"
      by auto
    from select_Run_Tick[OF s[unfolded CaseTick]] have nb: "\<not> buffered tk'" by simp
    show ?thesis
    proof (cases ok)
      case True
      with s k CaseTick q x show ?thesis by (intro exI[of _ 1]) auto
    next
      case False
      have le: "t + elapsed e \<le> next_fire tk'"
        using x Cons.prems(3) by simp
      have qk: "\<forall>e\<in>set es. elapsed e \<le> period tk'"
        using x Cons.prems(3) by simp
      from Cons.IH[OF nb le qk, of ldi' "tr @ (t, RecvTick) # map (Pair t) acts"]
      obtain n where n: "n \<le> length es"
        "map fst (filter (\<lambda>x. snd x = RecvTick) (trace (Run_loop w es tk' (t + elapsed e) ldi'
            (tr @ (t, RecvTick) # map (Pair t) acts)))) =
         map fst (filter (\<lambda>x. snd x = RecvTick) (tr @ (t, RecvTick) # map (Pair t) acts))
         @ map (\<lambda>i. next_fire tk' + i * period tk') [0..<n]"
        by blast
      have shift: "map (\<lambda>i. next_fire tk + i * period tk) [0..<Suc n] =
                   next_fire tk # map (\<lambda>i. next_fire tk' + i * period tk') [0..<n]"
        unfolding map_upt_Suc using x by simp
      show ?thesis
      proof (intro exI[of _ "Suc n"] conjI)
        show "Suc n \<le> length (e # es)" using n(1) by simp
        show "map fst (filter (\<lambda>x. snd x = RecvTick) (trace (Run_loop w (e # es) tk now ldi tr))) =
              map fst (filter (\<lambda>x. snd x = RecvTick) tr)
              @ map (\<lambda>i. next_fire tk + i * period tk) [0..<Suc n]"
          unfolding shift using s k CaseTick False n(2) q x(1) by simp
      qed
    qed
  qed
qed

lemma Run_never_closes_ready:
  "Ready (watcher (Run w envs start ldi)) = Ready ldi \<and>
   CloseReady \<notin> snd ` set (trace (Run w envs start ldi))"
  unfolding Run_def Ready_def
  using Run_loop_no_close[of "[(start, NewTicker Minute)]" w envs "NewTicker_at Minute start" start ldi]
  by (simp add: Run_loop_ready)

subsection \<open>The claims about the watcher\<close>

text \<open>
  Claim C1, evaluated on the code. The resource type is present at the first tick and
  the cache synchronizes at the first attempt: \<open>Run\<close> publishes the informer and
  returns nil, and the channel that \<open>Ready\<close> returns is still open. No statement of the
  watcher closes it (lemma \<open>Run_never_closes_ready\<close>: in every run the channel is in the
  state it had at the start and the trace has no \<open>CloseReady\<close>).
\<close>

theorem Run_success_leaves_ready_open:
  "Run live [taking Second (sync_from 0)] 0 fresh =
     \<lparr>outcome = Returned None,
      watcher = fresh\<lparr>informer := Some ''demands''\<rparr>,
      trace = [(0, NewTicker 60000000000), (60000000000, RecvTick),
               (60000000000, CheckCRDExists),
               (60000000000, LogInfo ''demand CRD has been initialized. Demand resources can now be created''),
               (60000000000, FactoryStart), (60000000000, WaitForCacheSync 2000000000),
               (61000000000, TickerStop)],
      clock = 61000000000\<rparr>
   \<and> Informer (watcher (Run live [taking Second (sync_from 0)] 0 fresh)) = Some ''demands''
   \<and> Ready (watcher (Run live [taking Second (sync_from 0)] 0 fresh)) = Open"
  by (simp add: example_defs const_defs run_defs check_defs Informer_def Ready_def)

lemma initializeInformer_calls_informer:
  "informer (initializeInformer_calls envs ldi) =
     (if \<exists>i<length envs.
           fst (initializeInformer (envs ! i) (initializeInformer_calls (take i envs) ldi)) = None
      then Some (Demands (informerFactory ldi)) else informer ldi)"
proof (induction envs arbitrary: ldi)
  case Nil
  show ?case by simp
next
  case (Cons e es)
  let ?ldi' = "fst (snd (initializeInformer e ldi))"
  have f: "informerFactory ?ldi' = informerFactory ldi"
    by (simp add: initializeInformer_state)
  have ex: "(\<exists>i<length (e # es).
               fst (initializeInformer ((e # es) ! i)
                      (initializeInformer_calls (take i (e # es)) ldi)) = None) =
            (fst (initializeInformer e ldi) = None \<or>
             (\<exists>i<length es.
               fst (initializeInformer (es ! i) (initializeInformer_calls (take i es) ?ldi')) = None))"
    by (simp add: Ex_less_Suc2)
  show ?case
  proof (cases "fst (initializeInformer e ldi) = None")
    case True
    then have "informer ?ldi' = Some (Demands (informerFactory ldi))"
      by (simp add: initializeInformer_state)
    with True show ?thesis
      unfolding ex using Cons.IH[of ?ldi'] f by simp
  next
    case False
    then have "?ldi' = ldi"
      by (auto simp add: initializeInformer_state)
    with False show ?thesis
      unfolding ex using Cons.IH[of ldi] by auto
  qed
qed

text \<open>
  Claim C2. In every state the watcher reaches from \<open>NewLazyDemandInformer\<close> by calls
  of \<open>initializeInformer\<close>, \<open>Informer\<close> returns nil as long as no call has returned nil
  (success), and returns the demand informer of the factory once a call has.
\<close>

theorem Informer_nil_until_initialized:
  "Informer (initializeInformer_calls envs (NewLazyDemandInformer f a d)) =
     (if \<exists>i<length envs.
           fst (initializeInformer (envs ! i)
                  (initializeInformer_calls (take i envs) (NewLazyDemandInformer f a d))) = None
      then Some (Demands f) else None)"
  unfolding Informer_def initializeInformer_calls_informer
  by (simp add: NewLazyDemandInformer_def)

theorem Informer_nil_until_initialized_witness:
  "Informer (initializeInformer_calls [sync_never, crd_absent] fresh) = None
   \<and> Informer (initializeInformer_calls [sync_never, sync_from 3, sync_never] fresh) = Some ''demands''"
  using Informer_nil_until_initialized [of "[sync_never, crd_absent]" "\<lparr>Demands = ''demands''\<rparr>"
          "''apiextensions''" "''scaler''"]
        Informer_nil_until_initialized [of "[sync_never, sync_from 3, sync_never]"
          "\<lparr>Demands = ''demands''\<rparr>" "''apiextensions''" "''scaler''"]
  by (simp add: example_defs const_defs check_defs Informer_def)

text \<open>
  Claim C3. A run of \<open>Run\<close> that returns, returns nil, and it returns only when the
  context is cancelled by then or when a check found the resource type ready, without
  error, and synchronized the cache within the 5 attempts (the informer is then
  published). When the context is never cancelled and every check fails (a discovery
  error, an absent type, or a cache that never synchronizes), \<open>Run\<close> does not return: it
  leaves the watcher as it was and has made one discovery query for every tick.
\<close>

theorem Run_returns_only_on_cancel_or_success:
  "(outcome (Run w envs start ldi) = Returned r \<longrightarrow>
      r = None \<and>
      (ctx_Done w (clock (Run w envs start ldi)) \<or>
       (\<exists>e\<in>set envs. crd_err (chk e) = None \<and> crd_ready (chk e) \<and>
          (\<exists>k<5. synced (chk e) k) \<and>
          Informer (watcher (Run w envs start ldi)) = Some (Demands (informerFactory ldi)))))
   \<and> (cancel_at w = None \<and>
        (\<forall>e\<in>set envs. crd_err (chk e) \<noteq> None \<or> \<not> crd_ready (chk e) \<or> (\<forall>k. \<not> synced (chk e) k)) \<longrightarrow>
      outcome (Run w envs start ldi) = Running \<and>
      watcher (Run w envs start ldi) = ldi \<and>
      length (filter (\<lambda>x. snd x = CheckCRDExists) (trace (Run w envs start ldi))) = length envs)"
proof -
  have 1: "outcome (Run w envs start ldi) = Returned r \<Longrightarrow> r = None \<and>
      (ctx_Done w (clock (Run w envs start ldi)) \<or>
       (\<exists>e\<in>set envs. crd_err (chk e) = None \<and> crd_ready (chk e) \<and>
          (\<exists>k<5. synced (chk e) k) \<and>
          Informer (watcher (Run w envs start ldi)) = Some (Demands (informerFactory ldi))))"
    using Run_loop_returned[of w envs "NewTicker_at Minute start" start ldi
            "[(start, NewTicker Minute)]" r]
    by (simp add: Run_def Informer_def informerSyncRetryCount_def)
  have 2: "outcome (Run w envs start ldi) = Running \<and>
      watcher (Run w envs start ldi) = ldi \<and>
      length (filter (\<lambda>x. snd x = CheckCRDExists) (trace (Run w envs start ldi))) = length envs"
    if a: "cancel_at w = None \<and>
        (\<forall>e\<in>set envs. crd_err (chk e) \<noteq> None \<or> \<not> crd_ready (chk e) \<or> (\<forall>k. \<not> synced (chk e) k))"
  proof -
  have "\<forall>e\<in>set envs. \<not> fst (checkDemandCRDExists (chk e) ldi)"
  proof
    fix e assume "e \<in> set envs"
    with a have "crd_err (chk e) \<noteq> None \<or> \<not> crd_ready (chk e) \<or> (\<forall>k. \<not> synced (chk e) k)"
      by blast
    then show "\<not> fst (checkDemandCRDExists (chk e) ldi)"
      using initializeInformer_all_fail[of "chk e" ldi]
      by (auto simp add: checkDemandCRDExists_ok)
  qed
  from Run_loop_all_failing[OF _ this, of w "NewTicker_at Minute start" start
         "[(start, NewTicker Minute)]"] a
  show ?thesis
    by (simp add: Run_def)
  qed
  from 1 2 show ?thesis by blast
qed

theorem Run_returns_only_on_cancel_or_success_witness:
  "outcome (Run (cancelled 90000000000) [taking Second crd_absent, taking Second (sync_from 2)] 0 fresh)
     = Returned None
   \<and> ctx_Done (cancelled 90000000000)
       (clock (Run (cancelled 90000000000) [taking Second crd_absent, taking Second (sync_from 2)] 0 fresh))
   \<and> outcome (Run live [taking Second crd_absent, taking Second (sync_from 2)] 0 fresh) = Returned None
   \<and> Informer (watcher (Run live [taking Second crd_absent, taking Second (sync_from 2)] 0 fresh))
       = Some ''demands''
   \<and> cancel_at live = None
   \<and> outcome (Run live [taking Second crd_error, taking Second crd_absent, taking Second sync_never] 0 fresh)
       = Running
   \<and> length (filter (\<lambda>x. snd x = CheckCRDExists)
        (trace (Run live [taking Second crd_error, taking Second crd_absent, taking Second sync_never] 0 fresh)))
       = 3"
  using Run_returns_only_on_cancel_or_success [of "cancelled 90000000000"
          "[taking Second crd_absent, taking Second (sync_from 2)]" 0 fresh None]
        Run_returns_only_on_cancel_or_success [of live
          "[taking Second crd_absent, taking Second (sync_from 2)]" 0 fresh None]
        Run_returns_only_on_cancel_or_success [of live
          "[taking Second crd_error, taking Second crd_absent, taking Second sync_never]" 0 fresh None]
  by (simp add: example_defs const_defs run_defs check_defs Informer_def)




text \<open>
  Claim C6. When every synchronization attempt of a check fails, \<open>checkDemandCRDExists\<close>
  returns false and leaves the watcher as it was: \<open>Informer\<close> returns what it returned
  before, the channel of \<open>Ready\<close> is not closed, and the loop of \<open>Run\<close> goes on with the
  next iteration instead of returning.
\<close>

theorem failed_sync_keeps_polling:
  assumes "\<forall>k. \<not> synced (chk e) k"
  shows "\<not> fst (checkDemandCRDExists (chk e) ldi)
       \<and> fst (snd (checkDemandCRDExists (chk e) ldi)) = ldi
       \<and> Informer (fst (snd (checkDemandCRDExists (chk e) ldi))) = Informer ldi
       \<and> Ready (fst (snd (checkDemandCRDExists (chk e) ldi))) = Ready ldi
       \<and> CloseReady \<notin> set (snd (snd (checkDemandCRDExists (chk e) ldi)))
       \<and> (select_Run w tk now = (CaseTick, t, tk') \<longrightarrow>
            Run_loop w (e # es) tk now ldi tr =
              Run_loop w es tk' (t + elapsed e) ldi
                (tr @ (t, RecvTick) # map (Pair t) (snd (snd (checkDemandCRDExists (chk e) ldi)))))"
proof -
  have f: "\<not> fst (checkDemandCRDExists (chk e) ldi)"
    using initializeInformer_all_fail[OF assms, of ldi]
    by (simp add: checkDemandCRDExists_ok)
  then have s: "fst (snd (checkDemandCRDExists (chk e) ldi)) = ldi"
    by (simp add: checkDemandCRDExists_state)
  have q: "CloseReady \<notin> set (snd (snd (checkDemandCRDExists (chk e) ldi)))"
    using checkDemandCRDExists_quiet[of CloseReady "chk e" ldi] by auto
  from f s q show ?thesis
    using Run_loop_failed_check[of w tk now t tk' e ldi es tr] by simp
qed

theorem failed_sync_keeps_polling_witness:
  "(\<forall>k. \<not> synced (chk (taking Second sync_never)) k)
   \<and> select_Run live (NewTicker_at Minute 0) 0 =
       (CaseTick, 60000000000, \<lparr>period = 60000000000, next_fire = 120000000000, buffered = False\<rparr>)
   \<and> \<not> fst (checkDemandCRDExists (chk (taking Second sync_never)) fresh)
   \<and> Informer (fst (snd (checkDemandCRDExists (chk (taking Second sync_never)) fresh))) = None
   \<and> Ready (fst (snd (checkDemandCRDExists (chk (taking Second sync_never)) fresh))) = Open
   \<and> outcome (Run_loop live [taking Second sync_never] (NewTicker_at Minute 0) 0 fresh []) = Running"
  using failed_sync_keeps_polling [of "taking Second sync_never" fresh
          live "NewTicker_at Minute 0" 0 60000000000
          "\<lparr>period = 60000000000, next_fire = 120000000000, buffered = False\<rparr>" "[]" "[]"]
  by (simp add: example_defs const_defs run_defs check_defs Informer_def Ready_def)

text \<open>
  Claim C7. When the discovery query returns an error, \<open>checkDemandCRDExists\<close> logs it
  and returns false without calling \<open>initializeInformer\<close> (no factory start, no
  synchronization attempt); the loop of \<open>Run\<close> goes on with the next iteration, and \<open>Run\<close>
  does not return the error.
\<close>

theorem discovery_error_is_retried:
  assumes "crd_err (chk e) = Some msg"
  shows "checkDemandCRDExists (chk e) ldi =
           (False, ldi, [CheckCRDExists, LogInfo ''failed to determine if demand CRD exists''])
       \<and> (select_Run w tk now = (CaseTick, t, tk') \<longrightarrow>
            Run_loop w (e # es) tk now ldi tr =
              Run_loop w es tk' (t + elapsed e) ldi
                (tr @ [(t, RecvTick), (t, CheckCRDExists),
                       (t, LogInfo ''failed to determine if demand CRD exists'')]))
       \<and> outcome (Run_loop w (e # es) tk now ldi tr) \<noteq> Returned (Some (DiscoveryError msg))"
proof -
  have c: "checkDemandCRDExists (chk e) ldi =
           (False, ldi, [CheckCRDExists, LogInfo ''failed to determine if demand CRD exists''])"
    using assms by (simp add: checkDemandCRDExists_def)
  have "outcome (Run_loop w (e # es) tk now ldi tr) \<noteq> Returned (Some (DiscoveryError msg))"
    using Run_loop_outcome[of w "e # es" tk now ldi tr] by auto
  with c show ?thesis
    using Run_loop_failed_check[of w tk now t tk' e ldi es tr] by simp
qed

theorem discovery_error_is_retried_witness:
  "crd_err (chk (taking Second crd_error)) = Some ''connection refused''
   \<and> select_Run live (NewTicker_at Minute 0) 0 =
       (CaseTick, 60000000000, \<lparr>period = 60000000000, next_fire = 120000000000, buffered = False\<rparr>)
   \<and> checkDemandCRDExists (chk (taking Second crd_error)) fresh =
       (False, fresh, [CheckCRDExists, LogInfo ''failed to determine if demand CRD exists''])
   \<and> Run_loop live [taking Second crd_error] (NewTicker_at Minute 0) 0 fresh [] =
       \<lparr>outcome = Running, watcher = fresh,
        trace = [(60000000000, RecvTick), (60000000000, CheckCRDExists),
                 (60000000000, LogInfo ''failed to determine if demand CRD exists'')],
        clock = 61000000000\<rparr>"
  using discovery_error_is_retried [of "taking Second crd_error" "''connection refused''" fresh
          live "NewTicker_at Minute 0" 0 60000000000
          "\<lparr>period = 60000000000, next_fire = 120000000000, buffered = False\<rparr>" "[]" "[]"]
  by (simp add: example_defs const_defs run_defs)

text \<open>
  Claim C8. \<open>Run\<close> creates its ticker with a period of 60 seconds, and when no check
  takes longer than the period, the ticks are received at 60 seconds, 120 seconds, ...
  after the start. On a tick where the resource type is absent (not ready, no error)
  the check makes the discovery query and nothing else, the watcher is unchanged and
  the loop goes on with the next iteration. At every iteration of the loop, a
  cancellation that comes before the next tick makes \<open>Run\<close> return nil at the instant
  of the cancellation, without another check.
\<close>

theorem polls_every_minute:
  "(\<exists>rest. trace (Run w envs start ldi) = (start, NewTicker 60000000000) # rest)
   \<and> ((\<forall>e\<in>set envs. elapsed e \<le> 60000000000) \<longrightarrow>
        (\<exists>n\<le>length envs.
           map fst (filter (\<lambda>x. snd x = RecvTick) (trace (Run w envs start ldi))) =
           map (\<lambda>i. start + (i + 1) * 60000000000) [0..<n]))
   \<and> (crd_err (chk e) = None \<and> \<not> crd_ready (chk e) \<longrightarrow>
        checkDemandCRDExists (chk e) ldi = (False, ldi, [CheckCRDExists]) \<and>
        (select_Run w tk now = (CaseTick, t, tk') \<longrightarrow>
           Run_loop w (e # es) tk now ldi tr =
             Run_loop w es tk' (t + elapsed e) ldi (tr @ [(t, RecvTick), (t, CheckCRDExists)])))
   \<and> (cancel_at w = Some c \<and> \<not> buffered tk \<and> now < next_fire tk \<and> c < next_fire tk \<longrightarrow>
        Run_loop w envs tk now ldi tr =
          \<lparr>outcome = Returned None, watcher = ldi,
           trace = tr @ [(max now c, RecvDone), (max now c, TickerStop)], clock = max now c\<rparr>)"
proof -
  have m: "Minute = 60000000000" by (simp add: const_defs)
  have 1: "\<exists>rest. trace (Run w envs start ldi) = (start, NewTicker 60000000000) # rest"
    using Run_loop_trace_extends[of w envs "NewTicker_at Minute start" start ldi
            "[(start, NewTicker Minute)]"]
    by (simp add: Run_def m)
  have 2: "(\<forall>e\<in>set envs. elapsed e \<le> 60000000000) \<longrightarrow>
        (\<exists>n\<le>length envs.
           map fst (filter (\<lambda>x. snd x = RecvTick) (trace (Run w envs start ldi))) =
           map (\<lambda>i. start + (i + 1) * 60000000000) [0..<n])"
  proof
    assume q: "\<forall>e\<in>set envs. elapsed e \<le> 60000000000"
    have "\<exists>n\<le>length envs.
       map fst (filter (\<lambda>x. snd x = RecvTick)
         (trace (Run_loop w envs (NewTicker_at Minute start) start ldi [(start, NewTicker Minute)]))) =
       map fst (filter (\<lambda>x. snd x = RecvTick) [(start, NewTicker Minute)])
       @ map (\<lambda>i. next_fire (NewTicker_at Minute start) + i * period (NewTicker_at Minute start)) [0..<n]"
      using q by (intro Run_loop_tick_instants) (simp_all add: NewTicker_at_def m)
    then show "\<exists>n\<le>length envs.
           map fst (filter (\<lambda>x. snd x = RecvTick) (trace (Run w envs start ldi))) =
           map (\<lambda>i. start + (i + 1) * 60000000000) [0..<n]"
      by (simp add: Run_def NewTicker_at_def m add.assoc)
  qed
  have 3: "crd_err (chk e) = None \<and> \<not> crd_ready (chk e) \<longrightarrow>
        checkDemandCRDExists (chk e) ldi = (False, ldi, [CheckCRDExists]) \<and>
        (select_Run w tk now = (CaseTick, t, tk') \<longrightarrow>
           Run_loop w (e # es) tk now ldi tr =
             Run_loop w es tk' (t + elapsed e) ldi (tr @ [(t, RecvTick), (t, CheckCRDExists)]))"
  proof
    assume a: "crd_err (chk e) = None \<and> \<not> crd_ready (chk e)"
    then have c: "checkDemandCRDExists (chk e) ldi = (False, ldi, [CheckCRDExists])"
      by (simp add: checkDemandCRDExists_def)
    then show "checkDemandCRDExists (chk e) ldi = (False, ldi, [CheckCRDExists]) \<and>
        (select_Run w tk now = (CaseTick, t, tk') \<longrightarrow>
           Run_loop w (e # es) tk now ldi tr =
             Run_loop w es tk' (t + elapsed e) ldi (tr @ [(t, RecvTick), (t, CheckCRDExists)]))"
      using Run_loop_failed_check[of w tk now t tk' e ldi es tr] by simp
  qed
  have 4: "cancel_at w = Some c \<and> \<not> buffered tk \<and> now < next_fire tk \<and> c < next_fire tk \<longrightarrow>
        Run_loop w envs tk now ldi tr =
          \<lparr>outcome = Returned None, watcher = ldi,
           trace = tr @ [(max now c, RecvDone), (max now c, TickerStop)], clock = max now c\<rparr>"
    using Run_loop_cancelled[of w c tk now envs ldi tr] by blast
  from 1 2 3 4 show ?thesis by blast
qed

theorem polls_every_minute_witness:
  "trace (Run live [taking Second crd_absent, taking Second crd_absent] 0 fresh) =
     [(0, NewTicker 60000000000),
      (60000000000, RecvTick), (60000000000, CheckCRDExists),
      (120000000000, RecvTick), (120000000000, CheckCRDExists)]
   \<and> elapsed (taking Second crd_absent) \<le> 60000000000
   \<and> map fst (filter (\<lambda>x. snd x = RecvTick)
        (trace (Run live [taking Second crd_absent, taking Second crd_absent] 0 fresh))) =
       [60000000000, 120000000000]
   \<and> crd_err (chk (taking Second crd_absent)) = None \<and> \<not> crd_ready (chk (taking Second crd_absent))
   \<and> checkDemandCRDExists (chk (taking Second crd_absent)) fresh = (False, fresh, [CheckCRDExists])
   \<and> select_Run live (NewTicker_at Minute 0) 0 =
       (CaseTick, 60000000000, \<lparr>period = 60000000000, next_fire = 120000000000, buffered = False\<rparr>)
   \<and> Run_loop live [taking Second crd_absent] (NewTicker_at Minute 0) 0 fresh [] =
       \<lparr>outcome = Running, watcher = fresh,
        trace = [(60000000000, RecvTick), (60000000000, CheckCRDExists)], clock = 61000000000\<rparr>
   \<and> cancel_at (cancelled 90000000000) = Some 90000000000
   \<and> \<not> buffered \<lparr>period = 60000000000, next_fire = 120000000000, buffered = False\<rparr>
   \<and> (61000000000 :: nat) < next_fire \<lparr>period = 60000000000, next_fire = 120000000000, buffered = False\<rparr>
   \<and> (90000000000 :: nat) < next_fire \<lparr>period = 60000000000, next_fire = 120000000000, buffered = False\<rparr>
   \<and> Run_loop (cancelled 90000000000) [taking Second crd_absent]
        \<lparr>period = 60000000000, next_fire = 120000000000, buffered = False\<rparr> 61000000000 fresh [] =
       \<lparr>outcome = Returned None, watcher = fresh,
        trace = [(90000000000, RecvDone), (90000000000, TickerStop)],
        clock = 90000000000\<rparr>"
  using polls_every_minute [where w = live
          and envs = "[taking Second crd_absent, taking Second crd_absent]" and start = 0
          and ldi = fresh and e = "taking Second crd_absent" and tk = "NewTicker_at Minute 0"
          and now = 0 and t = 60000000000
          and tk' = "\<lparr>period = 60000000000, next_fire = 120000000000, buffered = False\<rparr>"
          and es = "[]" and tr = "[]" and c = 0]
        polls_every_minute [where w = "cancelled 90000000000"
          and envs = "[taking Second crd_absent]" and start = 0
          and ldi = fresh and e = "taking Second crd_absent"
          and tk = "\<lparr>period = 60000000000, next_fire = 120000000000, buffered = False\<rparr>"
          and now = 61000000000 and t = 120000000000
          and tk' = "\<lparr>period = 60000000000, next_fire = 180000000000, buffered = False\<rparr>"
          and es = "[]" and tr = "[]" and c = 90000000000]
  by (simp add: example_defs const_defs run_defs check_defs)

text \<open>
  Claim C9. A run of \<open>Run\<close> that returns, returns nil: the outcome of a run is either
  \<open>Running\<close> (it has not returned yet) or \<open>Returned None\<close>.
\<close>

theorem Run_returns_nil:
  "outcome (Run w envs start ldi) = Running \<or> outcome (Run w envs start ldi) = Returned None"
  unfolding Run_def by (rule Run_loop_outcome)

text \<open>
  Claim C10. No discovery query is made before a full period of 60 seconds has passed
  since the start of \<open>Run\<close>; when the context is cancelled before that, \<open>Run\<close> returns
  nil at the cancellation (at once when it was cancelled before the start) and has
  made no call of \<open>checkDemandCRDExists\<close>.
\<close>

theorem no_check_before_first_tick:
  "(\<forall>x\<in>set (trace (Run w envs start ldi)). snd x = CheckCRDExists \<longrightarrow> start + 60000000000 \<le> fst x)
   \<and> (cancel_at w = Some c \<and> c < start + 60000000000 \<longrightarrow>
        Run w envs start ldi =
          \<lparr>outcome = Returned None, watcher = ldi,
           trace = [(start, NewTicker 60000000000), (max start c, RecvDone), (max start c, TickerStop)],
           clock = max start c\<rparr>)"
proof -
  have m: "Minute = 60000000000" by (simp add: const_defs)
  have 1: "\<forall>x\<in>set (trace (Run w envs start ldi)). snd x = CheckCRDExists \<longrightarrow> start + 60000000000 \<le> fst x"
    unfolding Run_def
    by (rule Run_loop_checks_after) (simp_all add: NewTicker_at_def m)
  have 2: "cancel_at w = Some c \<and> c < start + 60000000000 \<longrightarrow> Run w envs start ldi =
          \<lparr>outcome = Returned None, watcher = ldi,
           trace = [(start, NewTicker 60000000000), (max start c, RecvDone), (max start c, TickerStop)],
           clock = max start c\<rparr>"
    unfolding Run_def
    using Run_loop_cancelled[of w c "NewTicker_at Minute start" start envs ldi "[(start, NewTicker Minute)]"]
    by (simp add: NewTicker_at_def m)
  from 1 2 show ?thesis by blast
qed

theorem no_check_before_first_tick_witness:
  "(60000000000, CheckCRDExists) \<in> set (trace (Run live [taking Second crd_absent] 0 fresh))
   \<and> cancel_at (cancelled 59000000000) = Some 59000000000
   \<and> Run (cancelled 59000000000) [taking Second (sync_from 0)] 0 fresh =
        \<lparr>outcome = Returned None, watcher = fresh,
         trace = [(0, NewTicker 60000000000), (59000000000, RecvDone), (59000000000, TickerStop)],
         clock = 59000000000\<rparr>"
  using no_check_before_first_tick [of live "[taking Second crd_absent]" 0 fresh 0]
        no_check_before_first_tick [of "cancelled 59000000000" "[taking Second (sync_from 0)]" 0 fresh
          59000000000]
  by (simp add: example_defs const_defs run_defs check_defs)

section \<open>Properties of the reclaimer\<close>


end
